theory Spec2Isabelle
  imports Main "HOL-Library.Word"
begin

section \<open>Travel switch: hold detection, blink sequence and soft-off\<close>

text \<open>
  A shallow embedding of \<^verbatim>\<open>src/modules/travel_switch/src/travel_switch.c\<close>.
  The four file-scope variables of the module are the first four fields of the record
  \<open>machine\<close>. The remaining fields are the part of the platform the module talks to:
  the logical level of the indicator line, which work items are pending in the kernel,
  and a log, in program order, of every assignment to \<open>state\<close> and of every call
  into the platform (GPIO, work queue, power-off).
\<close>

subsection \<open>Data\<close>

datatype travel_state =
    STATE_IDLE
  | STATE_HOLD_PENDING
  | STATE_LED_COOLDOWN
  | STATE_BLINK_SEQUENCE
  | STATE_WAKEUP_HOLD_PENDING
  | STATE_SHUTTING_DOWN

datatype gpio_line = led_gpio | switch_gpio

datatype gpio_flags = GPIO_OUTPUT_INACTIVE | GPIO_INPUT

datatype work_item = hold_timer_work | led_timeout_work | blink_step_work | soft_off_work

datatype effect =
    StateAssign travel_state
  | GpioIsReady gpio_line bool
  | GpioPinConfigure gpio_line gpio_flags int
  | GpioPinGet gpio_line int
  | GpioPinSet gpio_line bool
  | WorkSchedule work_item "32 word"
  | WorkCancelDelayable work_item
  | WorkSubmit work_item
  | SysPoweroff

text \<open>The devicetree properties of the node, which the source reads with \<^verbatim>\<open>DT_PROP\<close>.\<close>

record config =
  hold_time_ms :: "32 word"
  led_timeout_ms :: "32 word"
  blink_count :: "32 word"
  blink_interval_ms :: "32 word"

record machine =
  state :: travel_state
  blink_remaining :: "32 word"
  blink_led_is_on :: bool
  switch_pressed :: bool
  led_level :: bool
  pending :: "work_item \<Rightarrow> bool"
  trace :: "effect list"

text \<open>The values the file-scope variables have before \<^verbatim>\<open>travel_switch_init\<close> runs.\<close>

definition boot_state :: machine where
  "boot_state =
     \<lparr>state = STATE_IDLE, blink_remaining = 0, blink_led_is_on = False,
      switch_pressed = False, led_level = False, pending = (\<lambda>w. False), trace = []\<rparr>"

subsection \<open>Platform calls\<close>

definition emit :: "effect \<Rightarrow> machine \<Rightarrow> machine" where
  "emit e s = s\<lparr>trace := trace s @ [e]\<rparr>"

definition assign_state :: "travel_state \<Rightarrow> machine \<Rightarrow> machine" where
  "assign_state st s = emit (StateAssign st) (s\<lparr>state := st\<rparr>)"

text \<open>
  \<^verbatim>\<open>k_work_schedule\<close> leaves a work item that is already pending as it is and makes
  any other pending; \<^verbatim>\<open>k_work_cancel_delayable\<close> removes it from the pending ones;
  \<^verbatim>\<open>k_work_submit\<close> queues it. The source ignores every return value.
\<close>

definition k_work_schedule :: "work_item \<Rightarrow> 32 word \<Rightarrow> machine \<Rightarrow> machine" where
  "k_work_schedule w ms s = emit (WorkSchedule w ms) (s\<lparr>pending := (pending s)(w := True)\<rparr>)"

definition k_work_cancel_delayable :: "work_item \<Rightarrow> machine \<Rightarrow> machine" where
  "k_work_cancel_delayable w s =
     emit (WorkCancelDelayable w) (s\<lparr>pending := (pending s)(w := False)\<rparr>)"

definition k_work_submit :: "work_item \<Rightarrow> machine \<Rightarrow> machine" where
  "k_work_submit w s = emit (WorkSubmit w) (s\<lparr>pending := (pending s)(w := True)\<rparr>)"

definition sys_poweroff :: "machine \<Rightarrow> machine" where
  "sys_poweroff s = emit SysPoweroff s"

definition gpio_pin_configure_dt :: "gpio_line \<Rightarrow> gpio_flags \<Rightarrow> int \<Rightarrow> machine \<Rightarrow> machine" where
  "gpio_pin_configure_dt line flags ret s =
     emit (GpioPinConfigure line flags ret)
       (if line = led_gpio \<and> flags = GPIO_OUTPUT_INACTIVE \<and> 0 \<le> ret
        then s\<lparr>led_level := False\<rparr> else s)"

subsection \<open>The module's functions\<close>

definition led_on :: "machine \<Rightarrow> machine" where
  "led_on s = emit (GpioPinSet led_gpio True) (s\<lparr>led_level := True\<rparr>)"

definition led_off :: "machine \<Rightarrow> machine" where
  "led_off s = emit (GpioPinSet led_gpio False) (s\<lparr>led_level := False\<rparr>)"

definition enter_soft_off :: "machine \<Rightarrow> machine" where
  "enter_soft_off s = sys_poweroff (led_off (assign_state STATE_SHUTTING_DOWN s))"

definition soft_off_handler :: "machine \<Rightarrow> machine" where
  "soft_off_handler s = enter_soft_off s"

definition start_blink_sequence :: "config \<Rightarrow> machine \<Rightarrow> machine" where
  "start_blink_sequence cfg s =
     k_work_schedule blink_step_work (blink_interval_ms cfg div 2)
       (led_off
         ((assign_state STATE_BLINK_SEQUENCE s)
            \<lparr>blink_remaining := blink_count cfg, blink_led_is_on := False\<rparr>))"

definition hold_timer_handler :: "config \<Rightarrow> machine \<Rightarrow> machine" where
  "hold_timer_handler cfg s =
     (if state s = STATE_HOLD_PENDING \<or> state s = STATE_WAKEUP_HOLD_PENDING
      then start_blink_sequence cfg s
      else s)"

definition led_timeout_handler :: "machine \<Rightarrow> machine" where
  "led_timeout_handler s =
     (if state s = STATE_LED_COOLDOWN
      then assign_state STATE_IDLE (led_off s)
      else s)"

definition blink_step_handler :: "config \<Rightarrow> machine \<Rightarrow> machine" where
  "blink_step_handler cfg s =
     (if state s \<noteq> STATE_BLINK_SEQUENCE then s
      else if blink_remaining s = 0 then
        (let s1 = led_off s in
         if \<not> switch_pressed s1 then enter_soft_off s1 else s1)
      else if \<not> blink_led_is_on s then
        k_work_schedule blink_step_work (blink_interval_ms cfg div 2)
          ((led_on s)\<lparr>blink_led_is_on := True\<rparr>)
      else
        k_work_schedule blink_step_work (blink_interval_ms cfg div 2)
          ((led_off s)\<lparr>blink_led_is_on := False, blink_remaining := blink_remaining s - 1\<rparr>))"

definition on_press :: "config \<Rightarrow> machine \<Rightarrow> machine" where
  "on_press cfg s0 =
     (let s = s0\<lparr>switch_pressed := True\<rparr> in
      case state s of
        STATE_IDLE \<Rightarrow>
          k_work_schedule hold_timer_work (hold_time_ms cfg)
            (led_on (assign_state STATE_HOLD_PENDING s))
      | STATE_LED_COOLDOWN \<Rightarrow>
          k_work_schedule hold_timer_work (hold_time_ms cfg)
            (led_on (assign_state STATE_HOLD_PENDING
              (k_work_cancel_delayable led_timeout_work s)))
      | STATE_BLINK_SEQUENCE \<Rightarrow> s
      | STATE_HOLD_PENDING \<Rightarrow> s
      | STATE_WAKEUP_HOLD_PENDING \<Rightarrow> s
      | STATE_SHUTTING_DOWN \<Rightarrow> s)"

definition on_release :: "config \<Rightarrow> machine \<Rightarrow> machine" where
  "on_release cfg s0 =
     (let s = s0\<lparr>switch_pressed := False\<rparr> in
      case state s of
        STATE_HOLD_PENDING \<Rightarrow>
          k_work_schedule led_timeout_work (led_timeout_ms cfg)
            (assign_state STATE_LED_COOLDOWN
              (k_work_cancel_delayable hold_timer_work s))
      | STATE_WAKEUP_HOLD_PENDING \<Rightarrow>
          enter_soft_off (led_off (k_work_cancel_delayable hold_timer_work s))
      | STATE_BLINK_SEQUENCE \<Rightarrow>
          (if blink_remaining s = 0 then k_work_submit soft_off_work s else s)
      | STATE_IDLE \<Rightarrow> s
      | STATE_LED_COOLDOWN \<Rightarrow> s
      | STATE_SHUTTING_DOWN \<Rightarrow> s)"

text \<open>
  The input callback. The event code \<^verbatim>\<open>INPUT_KEY_POWER\<close> comes from a header
  that is not part of the module, so it is a parameter here.
\<close>

record input_event =
  code :: "16 word"
  val :: "32 word"

definition travel_switch_input_cb ::
    "16 word \<Rightarrow> config \<Rightarrow> input_event \<Rightarrow> machine \<Rightarrow> machine" where
  "travel_switch_input_cb INPUT_KEY_POWER cfg evt s =
     (if code evt \<noteq> INPUT_KEY_POWER then s
      else if val evt \<noteq> 0 then on_press cfg s
      else on_release cfg s)"

subsection \<open>Initialisation\<close>

text \<open>
  What the GPIO driver answers at boot: whether each line is ready, what configuring it
  returns, and what reading the switch line returns (negative values are errors).
\<close>

record boot_env =
  led_ready :: bool
  led_configure_ret :: int
  switch_ready :: bool
  switch_configure_ret :: int
  switch_pin_state :: int

definition ENODEV :: int where
  "ENODEV = 19"

definition travel_switch_init :: "config \<Rightarrow> boot_env \<Rightarrow> machine \<Rightarrow> int \<times> machine" where
  "travel_switch_init cfg env s0 =
     (let s1 = emit (GpioIsReady led_gpio (led_ready env)) s0 in
      if \<not> led_ready env then (- ENODEV, s1)
      else
        let s2 = gpio_pin_configure_dt led_gpio GPIO_OUTPUT_INACTIVE (led_configure_ret env) s1 in
        if led_configure_ret env < 0 then (led_configure_ret env, s2)
        else
          let s3 = emit (GpioIsReady switch_gpio (switch_ready env)) s2 in
          if \<not> switch_ready env then (0, assign_state STATE_IDLE s3)
          else
            let s4 = gpio_pin_configure_dt switch_gpio GPIO_INPUT (switch_configure_ret env) s3 in
            if switch_configure_ret env < 0 then (0, assign_state STATE_IDLE s4)
            else
              let s5 = emit (GpioPinGet switch_gpio (switch_pin_state env)) s4 in
              if switch_pin_state env < 0 then (0, assign_state STATE_IDLE s5)
              else if switch_pin_state env \<noteq> 0 then
                (0, k_work_schedule hold_timer_work (hold_time_ms cfg)
                      (led_on (assign_state STATE_WAKEUP_HOLD_PENDING
                        (s5\<lparr>switch_pressed := True\<rparr>))))
              else (0, enter_soft_off s5))"

subsection \<open>Events\<close>

text \<open>
  The module is driven by the input callback (a press or a release of the switch) and by
  the work queue running one of the four work items. \<open>handler\<close> is the association
  that \<^verbatim>\<open>K_WORK_DELAYABLE_DEFINE\<close> and \<^verbatim>\<open>K_WORK_DEFINE\<close> set up.
\<close>

datatype event = Press | Release | Run work_item

fun handler :: "config \<Rightarrow> work_item \<Rightarrow> machine \<Rightarrow> machine" where
  "handler cfg hold_timer_work s = hold_timer_handler cfg s"
| "handler cfg led_timeout_work s = led_timeout_handler s"
| "handler cfg blink_step_work s = blink_step_handler cfg s"
| "handler cfg soft_off_work s = soft_off_handler s"

text \<open>\<open>dispatch\<close> calls the function an event stands for, whatever the kernel's state.\<close>

fun dispatch :: "config \<Rightarrow> event \<Rightarrow> machine \<Rightarrow> machine" where
  "dispatch cfg Press s = on_press cfg s"
| "dispatch cfg Release s = on_release cfg s"
| "dispatch cfg (Run w) s = handler cfg w s"

text \<open>
  \<open>deliver\<close> is what the running system does with an event. \<^verbatim>\<open>sys_poweroff\<close>
  does not return, so once it has been called nothing runs any more. The work queue runs
  the handler of a work item only if the item is pending, and the item stops being pending
  before its handler starts (so that the handler can schedule it again).
\<close>

definition halted :: "machine \<Rightarrow> bool" where
  "halted s = (SysPoweroff \<in> set (trace s))"

definition deliver :: "config \<Rightarrow> event \<Rightarrow> machine \<Rightarrow> machine" where
  "deliver cfg e s =
     (if halted s then s
      else case e of
        Press \<Rightarrow> on_press cfg s
      | Release \<Rightarrow> on_release cfg s
      | Run w \<Rightarrow>
          (if pending s w then handler cfg w (s\<lparr>pending := (pending s)(w := False)\<rparr>)
           else s))"

fun run :: "config \<Rightarrow> event list \<Rightarrow> machine \<Rightarrow> machine" where
  "run cfg [] s = s"
| "run cfg (e # es) s = run cfg es (deliver cfg e s)"

subsection \<open>Predicates and sample values used in the statements\<close>

text \<open>
  The held flag agrees with the state: set while a hold is being timed, clear while the
  machine rests or cools down.
\<close>

definition held_consistent :: "machine \<Rightarrow> bool" where
  "held_consistent s =
     (((state s = STATE_HOLD_PENDING \<or> state s = STATE_WAKEUP_HOLD_PENDING) \<longrightarrow> switch_pressed s)
      \<and> ((state s = STATE_IDLE \<or> state s = STATE_LED_COOLDOWN) \<longrightarrow> \<not> switch_pressed s))"

text \<open>The states a release leads to from a pending hold, and those that follow without a press.\<close>

definition hold_abandoned :: "machine \<Rightarrow> bool" where
  "hold_abandoned s =
     (state s = STATE_LED_COOLDOWN \<or> state s = STATE_IDLE \<or> state s = STATE_SHUTTING_DOWN)"

text \<open>A logged GPIO call on the switch line that reported a failure.\<close>

fun switch_check_failed :: "effect \<Rightarrow> bool" where
  "switch_check_failed (GpioIsReady l ok) = (l = switch_gpio \<and> \<not> ok)"
| "switch_check_failed (GpioPinConfigure l f ret) = (l = switch_gpio \<and> ret < 0)"
| "switch_check_failed (GpioPinGet l v) = (l = switch_gpio \<and> v < 0)"
| "switch_check_failed e = False"

definition cfg_example :: config where
  "cfg_example =
     \<lparr>hold_time_ms = 2000, led_timeout_ms = 3000, blink_count = 2, blink_interval_ms = 500\<rparr>"

definition env_example :: "bool \<Rightarrow> int \<Rightarrow> boot_env" where
  "env_example sw_ready pin =
     \<lparr>led_ready = True, led_configure_ret = 0, switch_ready = sw_ready,
      switch_configure_ret = 0, switch_pin_state = pin\<rparr>"

definition in_state :: "travel_state \<Rightarrow> bool \<Rightarrow> work_item list \<Rightarrow> machine" where
  "in_state st held ws =
     boot_state\<lparr>state := st, switch_pressed := held, pending := (\<lambda>w. w \<in> set ws)\<rparr>"

text \<open>
  The values written to the indicator line, in order, and the number of calls of
  \<^verbatim>\<open>sys_poweroff\<close>, both read off the log.
\<close>

fun led_writes :: "effect list \<Rightarrow> bool list" where
  "led_writes [] = []"
| "led_writes (GpioPinSet l v # tr) = (if l = led_gpio then v # led_writes tr else led_writes tr)"
| "led_writes (e # tr) = led_writes tr"

text \<open>\<open>n\<close> full cycles of the indicator: on, off, \<open>n\<close> times.\<close>

primrec blink_pattern :: "nat \<Rightarrow> bool list" where
  "blink_pattern 0 = []"
| "blink_pattern (Suc n) = True # False # blink_pattern n"

definition poweroff_calls :: "machine \<Rightarrow> nat" where
  "poweroff_calls s = count_list (trace s) SysPoweroff"

text \<open>
  \<open>armed\<close>: a hold is being timed. \<open>blinking cfg j\<close>: the blink sequence is running
  and \<open>j\<close> steps of it have been taken. \<open>blink_done\<close>: the sequence is over, the
  machine has either powered off or waits in \<open>STATE_BLINK_SEQUENCE\<close> for the release.
  \<open>blink_track cfg w0 c\<close>: after \<open>c\<close> expiries of the step timer the sequence
  is either running, with the indicator writes made since the log read \<open>w0\<close> and with
  the soft-off work item pending only once all cycles are through, or it is over, with the
  complete pattern written. \<open>soft_off_confined\<close>: the soft-off work item is pending
  only in \<open>STATE_BLINK_SEQUENCE\<close> and \<open>STATE_SHUTTING_DOWN\<close>.
\<close>

definition armed :: "machine \<Rightarrow> bool" where
  "armed s =
     ((state s = STATE_HOLD_PENDING \<or> state s = STATE_WAKEUP_HOLD_PENDING)
      \<and> pending s hold_timer_work \<and> \<not> halted s)"

definition blinking :: "config \<Rightarrow> nat \<Rightarrow> machine \<Rightarrow> bool" where
  "blinking cfg j s =
     (state s = STATE_BLINK_SEQUENCE \<and> \<not> halted s \<and> pending s blink_step_work
      \<and> j \<le> 2 * unat (blink_count cfg)
      \<and> unat (blink_remaining s) = unat (blink_count cfg) - j div 2
      \<and> blink_led_is_on s = odd j)"

definition blink_done :: "machine \<Rightarrow> bool" where
  "blink_done s =
     ((state s = STATE_SHUTTING_DOWN \<and> halted s)
      \<or> (state s = STATE_BLINK_SEQUENCE \<and> \<not> halted s \<and> \<not> pending s blink_step_work
          \<and> blink_remaining s = 0))"

definition soft_off_confined :: "machine \<Rightarrow> bool" where
  "soft_off_confined s =
     (pending s soft_off_work \<longrightarrow>
        state s = STATE_BLINK_SEQUENCE \<or> state s = STATE_SHUTTING_DOWN)"

definition blink_track :: "config \<Rightarrow> bool list \<Rightarrow> nat \<Rightarrow> machine \<Rightarrow> bool" where
  "blink_track cfg w0 c s =
     ((blinking cfg c s
       \<and> led_writes (trace s) = w0 @ False # take c (blink_pattern (unat (blink_count cfg)))
       \<and> (pending s soft_off_work \<longrightarrow> c = 2 * unat (blink_count cfg)))
      \<or> (blink_done s
          \<and> (led_writes (trace s) = w0 @ False # blink_pattern (unat (blink_count cfg)) @ [False]
              \<or> (state s = STATE_SHUTTING_DOWN
                  \<and> led_writes (trace s)
                      = w0 @ False # blink_pattern (unat (blink_count cfg)) @ [False, False]))))"

text \<open>
  The two orders of release and completion, from the expiry of the hold timer on. In the
  first the release comes after \<open>k\<close> steps of the blink sequence, which then runs to its
  end; the soft-off work item is given its turn either last or right after the release.
  In the second the blink sequence runs to its end first.
\<close>

definition release_before_completion :: "config \<Rightarrow> nat \<Rightarrow> event list" where
  "release_before_completion cfg k =
     Run hold_timer_work # replicate k (Run blink_step_work) @ [Release]
       @ replicate (2 * unat (blink_count cfg) + 1 - k) (Run blink_step_work)
       @ [Run soft_off_work]"

definition release_before_completion_soft_off_first :: "config \<Rightarrow> nat \<Rightarrow> event list" where
  "release_before_completion_soft_off_first cfg k =
     Run hold_timer_work # replicate k (Run blink_step_work) @ [Release, Run soft_off_work]
       @ replicate (2 * unat (blink_count cfg) + 1 - k) (Run blink_step_work)"

definition release_after_completion :: "config \<Rightarrow> event list" where
  "release_after_completion cfg =
     Run hold_timer_work # replicate (2 * unat (blink_count cfg) + 1) (Run blink_step_work)
       @ [Release, Run soft_off_work]"

section \<open>Properties\<close>

lemmas platform_defs = emit_def assign_state_def k_work_schedule_def k_work_cancel_delayable_def
  k_work_submit_def sys_poweroff_def gpio_pin_configure_dt_def led_on_def led_off_def

lemmas module_defs = enter_soft_off_def soft_off_handler_def start_blink_sequence_def
  hold_timer_handler_def led_timeout_handler_def blink_step_handler_def on_press_def on_release_def

lemmas sample_defs = boot_state_def cfg_example_def env_example_def in_state_def

lemma run_append: "run cfg (es @ es') s = run cfg es' (run cfg es s)"
  by (induction es arbitrary: s) simp_all

text \<open>The input callback turns an event with the power key's code into a press or a release.\<close>

lemma travel_switch_input_cb_dispatch:
  "travel_switch_input_cb k cfg \<lparr>code = c, val = v\<rparr> s =
     (if c \<noteq> k then s else dispatch cfg (if v \<noteq> 0 then Press else Release) s)"
  by (simp add: travel_switch_input_cb_def)

subsection \<open>Entering the blink sequence\<close>

lemma dispatch_enters_blink:
  "(state s \<noteq> STATE_BLINK_SEQUENCE \<and> state (dispatch cfg e s) = STATE_BLINK_SEQUENCE)
   = (e = Run hold_timer_work \<and> (state s = STATE_HOLD_PENDING \<or> state s = STATE_WAKEUP_HOLD_PENDING))"
proof (cases e)
  case Press
  then show ?thesis by (cases "state s") (simp_all add: on_press_def platform_defs)
next
  case Release
  then show ?thesis
    by (cases "state s") (simp_all add: on_release_def enter_soft_off_def platform_defs Let_def)
next
  case (Run w)
  then show ?thesis
    by (cases w; cases "state s") (simp_all add: module_defs platform_defs Let_def)
qed

lemma deliver_enters_blink:
  "(state s \<noteq> STATE_BLINK_SEQUENCE \<and> state (deliver cfg e s) = STATE_BLINK_SEQUENCE)
   = (e = Run hold_timer_work \<and> pending s hold_timer_work \<and> \<not> halted s
      \<and> (state s = STATE_HOLD_PENDING \<or> state s = STATE_WAKEUP_HOLD_PENDING))"
proof (cases "halted s")
  case True
  then show ?thesis by (auto simp add: deliver_def)
next
  case False
  show ?thesis
  proof (cases e)
    case Press
    with False dispatch_enters_blink [of s cfg Press] show ?thesis by (simp add: deliver_def)
  next
    case Release
    with False dispatch_enters_blink [of s cfg Release] show ?thesis by (simp add: deliver_def)
  next
    case (Run w)
    show ?thesis
    proof (cases "pending s w")
      case True
      with False Run dispatch_enters_blink [of "s\<lparr>pending := (pending s)(w := False)\<rparr>" cfg "Run w"]
      show ?thesis by (auto simp add: deliver_def)
    next
      case np: False
      with False Run show ?thesis by (auto simp add: deliver_def)
    qed
  qed
qed

lemma hold_abandoned_deliver:
  "hold_abandoned s \<Longrightarrow> e \<noteq> Press \<Longrightarrow> hold_abandoned (deliver cfg e s)"
proof (cases e)
  case Press
  assume "e \<noteq> Press"
  with Press show ?thesis by simp
next
  case Release
  assume "hold_abandoned s"
  with Release show ?thesis by (auto simp add: hold_abandoned_def deliver_def on_release_def)
next
  case (Run w)
  assume "hold_abandoned s"
  with Run show ?thesis
    by (cases w) (auto simp add: hold_abandoned_def deliver_def module_defs platform_defs Let_def)
qed

lemma hold_abandoned_run:
  "hold_abandoned s \<Longrightarrow> Press \<notin> set es \<Longrightarrow> hold_abandoned (run cfg es s)"
proof (induction es arbitrary: s)
  case Nil
  then show ?case by simp
next
  case (Cons e es)
  from Cons.prems have "hold_abandoned (deliver cfg e s)"
    by (auto intro: hold_abandoned_deliver)
  with Cons show ?case by simp
qed

lemma release_abandons_hold:
  "state s = STATE_HOLD_PENDING \<or> state s = STATE_WAKEUP_HOLD_PENDING \<Longrightarrow>
   hold_abandoned (on_release cfg s) \<and> \<not> pending (on_release cfg s) hold_timer_work"
  by (auto simp add: hold_abandoned_def on_release_def enter_soft_off_def platform_defs)

text \<open>
  C1. The state becomes \<open>STATE_BLINK_SEQUENCE\<close> exactly when the hold timer's handler
  runs in \<open>STATE_HOLD_PENDING\<close> or \<open>STATE_WAKEUP_HOLD_PENDING\<close>: this holds of every
  single handler call, and in every event sequence the event that brings the state into
  \<open>STATE_BLINK_SEQUENCE\<close> is the hold timer, pending, in one of the two states. A release
  in one of the two states cancels the hold timer, and as long as no new press arrives no
  later event brings the state into \<open>STATE_BLINK_SEQUENCE\<close>.
\<close>

theorem blink_entry_only_by_hold_timer:
  "((state s \<noteq> STATE_BLINK_SEQUENCE \<and> state (dispatch cfg e s) = STATE_BLINK_SEQUENCE)
      = (e = Run hold_timer_work
         \<and> (state s = STATE_HOLD_PENDING \<or> state s = STATE_WAKEUP_HOLD_PENDING)))
   \<and> (state (run cfg es s) \<noteq> STATE_BLINK_SEQUENCE
        \<and> state (run cfg (es @ [e]) s) = STATE_BLINK_SEQUENCE
      \<longrightarrow> e = Run hold_timer_work \<and> pending (run cfg es s) hold_timer_work
          \<and> (state (run cfg es s) = STATE_HOLD_PENDING
             \<or> state (run cfg es s) = STATE_WAKEUP_HOLD_PENDING))
   \<and> (state s = STATE_HOLD_PENDING \<or> state s = STATE_WAKEUP_HOLD_PENDING
      \<longrightarrow> \<not> pending (on_release cfg s) hold_timer_work
          \<and> state (on_release cfg s) \<noteq> STATE_BLINK_SEQUENCE
          \<and> (Press \<notin> set es' \<longrightarrow> state (run cfg es' (on_release cfg s)) \<noteq> STATE_BLINK_SEQUENCE))"
proof (intro conjI impI)
  show "(state s \<noteq> STATE_BLINK_SEQUENCE \<and> state (dispatch cfg e s) = STATE_BLINK_SEQUENCE)
      = (e = Run hold_timer_work
         \<and> (state s = STATE_HOLD_PENDING \<or> state s = STATE_WAKEUP_HOLD_PENDING))"
    by (rule dispatch_enters_blink)
next
  assume a: "state (run cfg es s) \<noteq> STATE_BLINK_SEQUENCE
        \<and> state (run cfg (es @ [e]) s) = STATE_BLINK_SEQUENCE"
  then have "state (run cfg es s) \<noteq> STATE_BLINK_SEQUENCE
      \<and> state (deliver cfg e (run cfg es s)) = STATE_BLINK_SEQUENCE"
    by (simp add: run_append)
  then have d: "e = Run hold_timer_work \<and> pending (run cfg es s) hold_timer_work
      \<and> \<not> halted (run cfg es s)
      \<and> (state (run cfg es s) = STATE_HOLD_PENDING
         \<or> state (run cfg es s) = STATE_WAKEUP_HOLD_PENDING)"
    using deliver_enters_blink [of "run cfg es s" cfg e] by blast
  from d show "e = Run hold_timer_work" by simp
  from d show "pending (run cfg es s) hold_timer_work" by simp
  from d show "state (run cfg es s) = STATE_HOLD_PENDING
             \<or> state (run cfg es s) = STATE_WAKEUP_HOLD_PENDING" by simp
next
  assume h: "state s = STATE_HOLD_PENDING \<or> state s = STATE_WAKEUP_HOLD_PENDING"
  from release_abandons_hold [OF h, of cfg]
  show "\<not> pending (on_release cfg s) hold_timer_work" by simp
  from release_abandons_hold [OF h, of cfg]
  show "state (on_release cfg s) \<noteq> STATE_BLINK_SEQUENCE" by (auto simp add: hold_abandoned_def)
  assume "Press \<notin> set es'"
  with release_abandons_hold [OF h, of cfg] hold_abandoned_run [of "on_release cfg s" es' cfg]
  show "state (run cfg es' (on_release cfg s)) \<noteq> STATE_BLINK_SEQUENCE"
    by (auto simp add: hold_abandoned_def)
qed

theorem blink_entry_only_by_hold_timer_witness:
  "state (in_state STATE_HOLD_PENDING True [hold_timer_work]) = STATE_HOLD_PENDING
   \<and> state (dispatch cfg_example (Run hold_timer_work)
              (in_state STATE_HOLD_PENDING True [hold_timer_work])) = STATE_BLINK_SEQUENCE
   \<and> state (run cfg_example [Press] (in_state STATE_HOLD_PENDING True [hold_timer_work]))
       \<noteq> STATE_BLINK_SEQUENCE
   \<and> state (run cfg_example ([Press] @ [Run hold_timer_work])
              (in_state STATE_HOLD_PENDING True [hold_timer_work])) = STATE_BLINK_SEQUENCE
   \<and> pending (run cfg_example [Press] (in_state STATE_HOLD_PENDING True [hold_timer_work]))
       hold_timer_work
   \<and> Press \<notin> set [Run hold_timer_work, Run led_timeout_work]
   \<and> \<not> pending (on_release cfg_example (in_state STATE_HOLD_PENDING True [hold_timer_work]))
          hold_timer_work
   \<and> state (run cfg_example [Run hold_timer_work, Run led_timeout_work]
              (on_release cfg_example (in_state STATE_HOLD_PENDING True [hold_timer_work])))
       \<noteq> STATE_BLINK_SEQUENCE"
proof -
  have "state (run cfg_example [Press] (in_state STATE_HOLD_PENDING True [hold_timer_work]))
       \<noteq> STATE_BLINK_SEQUENCE
     \<and> state (run cfg_example ([Press] @ [Run hold_timer_work])
              (in_state STATE_HOLD_PENDING True [hold_timer_work])) = STATE_BLINK_SEQUENCE"
    by (simp add: sample_defs deliver_def halted_def module_defs platform_defs)
  then show ?thesis
    using blink_entry_only_by_hold_timer
      [of "in_state STATE_HOLD_PENDING True [hold_timer_work]" cfg_example "Run hold_timer_work"
          "[Press]" "[Run hold_timer_work, Run led_timeout_work]"]
    by (simp add: in_state_def)
qed

subsection \<open>The terminal state\<close>

text \<open>
  C3. \<open>STATE_SHUTTING_DOWN\<close> is absorbing. A press, a release, or the expiry of the hold
  timer, the cooldown timer or the blink step timer in that state leaves the state as it
  is, makes no call into the platform at all (the log is unchanged, so the indicator is
  not written and nothing is scheduled), and leaves no work item pending that was not
  pending before. This holds of the handler called directly and of the event as the
  running system delivers it. The soft-off work item is not one of these events: its
  handler has no guard on the state.
\<close>

theorem shutting_down_absorbing:
  assumes "state s = STATE_SHUTTING_DOWN" and "e \<noteq> Run soft_off_work"
  shows "state (dispatch cfg e s) = STATE_SHUTTING_DOWN
       \<and> led_level (dispatch cfg e s) = led_level s
       \<and> trace (dispatch cfg e s) = trace s
       \<and> pending (dispatch cfg e s) = pending s
       \<and> state (deliver cfg e s) = STATE_SHUTTING_DOWN
       \<and> led_level (deliver cfg e s) = led_level s
       \<and> trace (deliver cfg e s) = trace s
       \<and> (\<forall>w. pending (deliver cfg e s) w \<longrightarrow> pending s w)"
proof (cases e)
  case Press
  with assms show ?thesis by (simp add: deliver_def on_press_def)
next
  case Release
  with assms show ?thesis by (simp add: deliver_def on_release_def)
next
  case (Run w)
  with assms show ?thesis
    by (cases w)
      (simp_all add: deliver_def hold_timer_handler_def led_timeout_handler_def
        blink_step_handler_def)
qed

theorem shutting_down_absorbing_witness:
  "state (in_state STATE_SHUTTING_DOWN False [blink_step_work]) = STATE_SHUTTING_DOWN
   \<and> Run blink_step_work \<noteq> Run soft_off_work
   \<and> state (deliver cfg_example (Run blink_step_work)
              (in_state STATE_SHUTTING_DOWN False [blink_step_work])) = STATE_SHUTTING_DOWN
   \<and> trace (deliver cfg_example (Run blink_step_work)
              (in_state STATE_SHUTTING_DOWN False [blink_step_work])) = []
   \<and> trace (dispatch cfg_example (Run blink_step_work)
              (in_state STATE_SHUTTING_DOWN False [blink_step_work])) = []"
  using shutting_down_absorbing
    [of "in_state STATE_SHUTTING_DOWN False [blink_step_work]" "Run blink_step_work" cfg_example]
  by (simp add: sample_defs)

subsection \<open>One step of the blink sequence\<close>

text \<open>
  C5, as the specification states it, does not hold. With one cycle left, the indicator
  phase on and the switch released, the step handler takes the count to zero, keeps the
  state \<open>STATE_BLINK_SEQUENCE\<close>, does not power off and schedules the step timer again.
\<close>

theorem blink_step_last_cycle_counterexample:
  "let s = (in_state STATE_BLINK_SEQUENCE False [])\<lparr>blink_remaining := 1, blink_led_is_on := True\<rparr>;
       s' = blink_step_handler cfg_example s
   in \<not> switch_pressed s \<and> blink_remaining s' = 0 \<and> state s' = STATE_BLINK_SEQUENCE
      \<and> trace s' = [GpioPinSet led_gpio False, WorkSchedule blink_step_work 250]
      \<and> pending s' blink_step_work"
  by (simp add: sample_defs blink_step_handler_def platform_defs Let_def)

text \<open>
  C5, amended. In \<open>STATE_BLINK_SEQUENCE\<close>, when the step timer fires with the phase on
  and a non-zero count, the handler turns the indicator off, clears the phase, decrements
  the count and schedules the step timer again, also when the count has reached zero. The
  sequence completes at the following expiry of the step timer, which finds the count at
  zero: the indicator is turned off and the step timer is not scheduled again; if the held
  flag is set nothing else happens, and if it is clear the handler itself enters soft-off.
\<close>

theorem blink_step_completion:
  assumes "state s = STATE_BLINK_SEQUENCE"
  shows "(blink_remaining s \<noteq> 0 \<and> blink_led_is_on s \<longrightarrow>
            blink_step_handler cfg s =
              s\<lparr>blink_remaining := blink_remaining s - 1, blink_led_is_on := False,
                led_level := False,
                pending := (pending s)(blink_step_work := True),
                trace := trace s @ [GpioPinSet led_gpio False,
                                    WorkSchedule blink_step_work (blink_interval_ms cfg div 2)]\<rparr>)
       \<and> (blink_remaining s = 0 \<and> switch_pressed s \<longrightarrow>
            blink_step_handler cfg s =
              s\<lparr>led_level := False, trace := trace s @ [GpioPinSet led_gpio False]\<rparr>)
       \<and> (blink_remaining s = 0 \<and> \<not> switch_pressed s \<longrightarrow>
            blink_step_handler cfg s =
              s\<lparr>state := STATE_SHUTTING_DOWN, led_level := False,
                trace := trace s @ [GpioPinSet led_gpio False, StateAssign STATE_SHUTTING_DOWN,
                                    GpioPinSet led_gpio False, SysPoweroff]\<rparr>)"
  using assms by (simp add: blink_step_handler_def enter_soft_off_def platform_defs Let_def)

theorem blink_step_completion_witness:
  "state ((in_state STATE_BLINK_SEQUENCE False [])\<lparr>blink_remaining := 1, blink_led_is_on := True\<rparr>)
     = STATE_BLINK_SEQUENCE
   \<and> blink_remaining (blink_step_handler cfg_example
        ((in_state STATE_BLINK_SEQUENCE False [])\<lparr>blink_remaining := 1, blink_led_is_on := True\<rparr>))
     = 0
   \<and> state (in_state STATE_BLINK_SEQUENCE False []) = STATE_BLINK_SEQUENCE
   \<and> blink_remaining (in_state STATE_BLINK_SEQUENCE False []) = 0
   \<and> \<not> switch_pressed (in_state STATE_BLINK_SEQUENCE False [])
   \<and> trace (blink_step_handler cfg_example (in_state STATE_BLINK_SEQUENCE False []))
     = [GpioPinSet led_gpio False, StateAssign STATE_SHUTTING_DOWN,
        GpioPinSet led_gpio False, SysPoweroff]
   \<and> state (in_state STATE_BLINK_SEQUENCE True []) = STATE_BLINK_SEQUENCE
   \<and> blink_remaining (in_state STATE_BLINK_SEQUENCE True []) = 0
   \<and> switch_pressed (in_state STATE_BLINK_SEQUENCE True [])
   \<and> trace (blink_step_handler cfg_example (in_state STATE_BLINK_SEQUENCE True []))
     = [GpioPinSet led_gpio False]"
  using blink_step_completion
    [of "(in_state STATE_BLINK_SEQUENCE False [])\<lparr>blink_remaining := 1, blink_led_is_on := True\<rparr>"
        cfg_example]
    blink_step_completion [of "in_state STATE_BLINK_SEQUENCE False []" cfg_example]
    blink_step_completion [of "in_state STATE_BLINK_SEQUENCE True []" cfg_example]
  by (simp add: sample_defs)

subsection \<open>Short presses\<close>

text \<open>
  C6. A release in \<open>STATE_HOLD_PENDING\<close> cancels the hold timer, moves to
  \<open>STATE_LED_COOLDOWN\<close> and schedules the cooldown timer; it does not write the
  indicator and does not enter \<open>STATE_BLINK_SEQUENCE\<close>. A press in
  \<open>STATE_LED_COOLDOWN\<close> cancels the cooldown timer, returns to \<open>STATE_HOLD_PENDING\<close>,
  writes the indicator on (never off) and schedules the hold timer. The cooldown timer's
  handler in \<open>STATE_LED_COOLDOWN\<close> turns the indicator off and moves to \<open>STATE_IDLE\<close>.
  Each equation gives the whole resulting state, so nothing else changes.
\<close>

theorem short_press_cooldown:
  "(state s = STATE_HOLD_PENDING \<longrightarrow>
      on_release cfg s =
        s\<lparr>state := STATE_LED_COOLDOWN, switch_pressed := False,
          pending := (pending s)(hold_timer_work := False, led_timeout_work := True),
          trace := trace s @ [WorkCancelDelayable hold_timer_work, StateAssign STATE_LED_COOLDOWN,
                              WorkSchedule led_timeout_work (led_timeout_ms cfg)]\<rparr>)
   \<and> (state s = STATE_LED_COOLDOWN \<longrightarrow>
      on_press cfg s =
        s\<lparr>state := STATE_HOLD_PENDING, switch_pressed := True, led_level := True,
          pending := (pending s)(led_timeout_work := False, hold_timer_work := True),
          trace := trace s @ [WorkCancelDelayable led_timeout_work, StateAssign STATE_HOLD_PENDING,
                              GpioPinSet led_gpio True,
                              WorkSchedule hold_timer_work (hold_time_ms cfg)]\<rparr>)
   \<and> (state s = STATE_LED_COOLDOWN \<longrightarrow>
      led_timeout_handler s =
        s\<lparr>state := STATE_IDLE, led_level := False,
          trace := trace s @ [GpioPinSet led_gpio False, StateAssign STATE_IDLE]\<rparr>)"
  by (simp add: on_release_def on_press_def led_timeout_handler_def platform_defs)

theorem short_press_cooldown_witness:
  "state (in_state STATE_HOLD_PENDING True [hold_timer_work]) = STATE_HOLD_PENDING
   \<and> state (on_release cfg_example (in_state STATE_HOLD_PENDING True [hold_timer_work]))
       = STATE_LED_COOLDOWN
   \<and> trace (on_release cfg_example (in_state STATE_HOLD_PENDING True [hold_timer_work]))
       = [WorkCancelDelayable hold_timer_work, StateAssign STATE_LED_COOLDOWN,
          WorkSchedule led_timeout_work 3000]
   \<and> state (in_state STATE_LED_COOLDOWN False [led_timeout_work]) = STATE_LED_COOLDOWN
   \<and> state (on_press cfg_example (in_state STATE_LED_COOLDOWN False [led_timeout_work]))
       = STATE_HOLD_PENDING
   \<and> \<not> pending (on_press cfg_example (in_state STATE_LED_COOLDOWN False [led_timeout_work]))
          led_timeout_work
   \<and> state (led_timeout_handler (in_state STATE_LED_COOLDOWN False [led_timeout_work]))
       = STATE_IDLE"
  using short_press_cooldown [of "in_state STATE_HOLD_PENDING True [hold_timer_work]" cfg_example]
    short_press_cooldown [of "in_state STATE_LED_COOLDOWN False [led_timeout_work]" cfg_example]
  by (simp add: sample_defs)

subsection \<open>Release during the wake-up hold\<close>

text \<open>
  C7. A release in \<open>STATE_WAKEUP_HOLD_PENDING\<close>, whether or not the hold timer is still
  pending, cancels the hold timer, turns the indicator off and enters soft-off in the same
  call: the state becomes \<open>STATE_SHUTTING_DOWN\<close> and \<open>sys_poweroff\<close> is called by the
  release handler itself. The soft-off work item is not submitted.
\<close>

theorem wakeup_release_direct:
  assumes "state s = STATE_WAKEUP_HOLD_PENDING"
  shows "on_release cfg s =
           s\<lparr>state := STATE_SHUTTING_DOWN, switch_pressed := False, led_level := False,
             pending := (pending s)(hold_timer_work := False),
             trace := trace s @ [WorkCancelDelayable hold_timer_work, GpioPinSet led_gpio False,
                                 StateAssign STATE_SHUTTING_DOWN, GpioPinSet led_gpio False,
                                 SysPoweroff]\<rparr>
       \<and> pending (on_release cfg s) soft_off_work = pending s soft_off_work
       \<and> (WorkSubmit soft_off_work \<in> set (trace (on_release cfg s))
            \<longleftrightarrow> WorkSubmit soft_off_work \<in> set (trace s))"
  using assms by (simp add: on_release_def enter_soft_off_def platform_defs)

theorem wakeup_release_direct_witness:
  "state (in_state STATE_WAKEUP_HOLD_PENDING True [hold_timer_work]) = STATE_WAKEUP_HOLD_PENDING
   \<and> trace (on_release cfg_example (in_state STATE_WAKEUP_HOLD_PENDING True [hold_timer_work]))
       = [WorkCancelDelayable hold_timer_work, GpioPinSet led_gpio False,
          StateAssign STATE_SHUTTING_DOWN, GpioPinSet led_gpio False, SysPoweroff]
   \<and> state (in_state STATE_WAKEUP_HOLD_PENDING True []) = STATE_WAKEUP_HOLD_PENDING
   \<and> state (on_release cfg_example (in_state STATE_WAKEUP_HOLD_PENDING True []))
       = STATE_SHUTTING_DOWN"
  using wakeup_release_direct [of "in_state STATE_WAKEUP_HOLD_PENDING True [hold_timer_work]" cfg_example]
    wakeup_release_direct [of "in_state STATE_WAKEUP_HOLD_PENDING True []" cfg_example]
  by (simp add: sample_defs)

subsection \<open>Boot\<close>

text \<open>
  C8. If initialisation reads the switch line and the read gives 0 (not held), it
  returns 0 and its whole effect is the log below: the two lines are set up, the switch is
  read, and soft-off is entered. The only assignment to \<open>state\<close> is the one to
  \<open>STATE_SHUTTING_DOWN\<close>, the indicator is never written on, and no work item is
  scheduled. The read takes place only when both lines were ready and configured.
\<close>

theorem boot_not_held:
  assumes "travel_switch_init cfg env boot_state = (r, s)"
    and "GpioPinGet switch_gpio 0 \<in> set (trace s)"
  shows "r = 0
       \<and> s = boot_state\<lparr>state := STATE_SHUTTING_DOWN,
                 trace := [GpioIsReady led_gpio True,
                           GpioPinConfigure led_gpio GPIO_OUTPUT_INACTIVE (led_configure_ret env),
                           GpioIsReady switch_gpio True,
                           GpioPinConfigure switch_gpio GPIO_INPUT (switch_configure_ret env),
                           GpioPinGet switch_gpio 0,
                           StateAssign STATE_SHUTTING_DOWN,
                           GpioPinSet led_gpio False,
                           SysPoweroff]\<rparr>
       \<and> GpioPinSet led_gpio True \<notin> set (trace s)
       \<and> \<not> led_level s
       \<and> led_ready env \<and> 0 \<le> led_configure_ret env \<and> switch_ready env
       \<and> 0 \<le> switch_configure_ret env \<and> switch_pin_state env = 0"
  using assms
  by (auto simp add: travel_switch_init_def boot_state_def enter_soft_off_def platform_defs
      Let_def split: if_splits)

theorem boot_not_held_witness:
  "GpioPinGet switch_gpio 0
     \<in> set (trace (snd (travel_switch_init cfg_example (env_example True 0) boot_state)))
   \<and> fst (travel_switch_init cfg_example (env_example True 0) boot_state) = 0
   \<and> state (snd (travel_switch_init cfg_example (env_example True 0) boot_state))
       = STATE_SHUTTING_DOWN
   \<and> GpioPinSet led_gpio True
       \<notin> set (trace (snd (travel_switch_init cfg_example (env_example True 0) boot_state)))"
proof -
  have t: "GpioPinGet switch_gpio 0
     \<in> set (trace (snd (travel_switch_init cfg_example (env_example True 0) boot_state)))"
    by (simp add: travel_switch_init_def sample_defs enter_soft_off_def platform_defs Let_def)
  show ?thesis
    using t boot_not_held [OF prod.collapse [symmetric] t]
    by simp
qed

text \<open>
  C9. If a check of the switch line fails at boot (the line is not ready, configuring it
  as an input returns an error, or reading it returns an error), initialisation returns 0,
  its last action is to assign \<open>STATE_IDLE\<close>, and soft-off is not entered: there is
  no call of \<open>sys_poweroff\<close> and the soft-off work item is not submitted. The switch
  line is checked only after the indicator line was set up; in terms of the driver's
  answers the second half of the statement says when a check of the switch line fails.
\<close>

theorem boot_switch_unreadable:
  "let (r, s) = travel_switch_init cfg env boot_state in
     (list_ex switch_check_failed (trace s) \<longrightarrow>
        r = 0 \<and> state s = STATE_IDLE \<and> last (trace s) = StateAssign STATE_IDLE
        \<and> SysPoweroff \<notin> set (trace s) \<and> WorkSubmit soft_off_work \<notin> set (trace s)
        \<and> (\<forall>w. \<not> pending s w) \<and> \<not> switch_pressed s)
     \<and> (list_ex switch_check_failed (trace s)
          \<longleftrightarrow> led_ready env \<and> 0 \<le> led_configure_ret env
              \<and> (\<not> switch_ready env \<or> switch_configure_ret env < 0 \<or> switch_pin_state env < 0))"
  by (auto simp add: travel_switch_init_def boot_state_def enter_soft_off_def platform_defs
      Let_def)

theorem boot_switch_unreadable_witness:
  "list_ex switch_check_failed
     (trace (snd (travel_switch_init cfg_example (env_example False 0) boot_state)))
   \<and> travel_switch_init cfg_example (env_example False 0) boot_state
     = (0, boot_state\<lparr>trace := [GpioIsReady led_gpio True,
                                GpioPinConfigure led_gpio GPIO_OUTPUT_INACTIVE 0,
                                GpioIsReady switch_gpio False,
                                StateAssign STATE_IDLE]\<rparr>)
   \<and> list_ex switch_check_failed
     (trace (snd (travel_switch_init cfg_example (env_example True (- 5)) boot_state)))
   \<and> state (snd (travel_switch_init cfg_example (env_example True (- 5)) boot_state))
     = STATE_IDLE"
  using boot_switch_unreadable [of cfg_example "env_example False 0"]
    boot_switch_unreadable [of cfg_example "env_example True (- 5)"]
  by (simp add: travel_switch_init_def sample_defs platform_defs Let_def)

subsection \<open>The held flag\<close>

lemma held_consistent_init: "held_consistent (snd (travel_switch_init cfg env boot_state))"
  by (simp add: held_consistent_def travel_switch_init_def boot_state_def enter_soft_off_def
      platform_defs Let_def)

lemma held_consistent_handler: "held_consistent s \<Longrightarrow> held_consistent (handler cfg w s)"
  by (cases w) (auto simp add: held_consistent_def module_defs platform_defs Let_def)

lemma held_consistent_dispatch: "held_consistent s \<Longrightarrow> held_consistent (dispatch cfg e s)"
proof (cases e)
  case Press
  assume "held_consistent s"
  with Press show ?thesis
    by (cases "state s") (simp_all add: held_consistent_def on_press_def platform_defs)
next
  case Release
  assume "held_consistent s"
  with Release show ?thesis
    by (cases "state s")
      (simp_all add: held_consistent_def on_release_def enter_soft_off_def platform_defs Let_def)
next
  case (Run w)
  assume "held_consistent s"
  with Run show ?thesis by (simp add: held_consistent_handler)
qed

lemma held_consistent_pending_upd:
  "held_consistent (s\<lparr>pending := p\<rparr>) = held_consistent s"
  by (simp add: held_consistent_def)

lemma held_consistent_deliver: "held_consistent s \<Longrightarrow> held_consistent (deliver cfg e s)"
proof -
  assume h: "held_consistent s"
  show ?thesis
  proof (cases e)
    case Press
    with h held_consistent_dispatch [of s cfg Press] show ?thesis by (simp add: deliver_def)
  next
    case Release
    with h held_consistent_dispatch [of s cfg Release] show ?thesis by (simp add: deliver_def)
  next
    case (Run w)
    with h show ?thesis
      by (simp add: deliver_def held_consistent_handler held_consistent_pending_upd)
  qed
qed

lemma held_consistent_run: "held_consistent s \<Longrightarrow> held_consistent (run cfg es s)"
  by (induction es arbitrary: s) (simp_all add: held_consistent_deliver)

text \<open>
  C10. The held flag is consistent with the state (set in \<open>STATE_HOLD_PENDING\<close> and
  \<open>STATE_WAKEUP_HOLD_PENDING\<close>, clear in \<open>STATE_IDLE\<close> and \<open>STATE_LED_COOLDOWN\<close>)
  when initialisation returns, whatever the GPIO driver answered; the press handler, the
  release handler and every work handler preserve this, called directly or delivered by
  the running system; so it holds in every state reached from boot by any event sequence.
\<close>

theorem held_flag_invariant:
  "held_consistent (snd (travel_switch_init cfg env boot_state))
   \<and> (held_consistent s \<longrightarrow> held_consistent (dispatch cfg e s))
   \<and> (held_consistent s \<longrightarrow> held_consistent (deliver cfg e s))
   \<and> held_consistent (run cfg es (snd (travel_switch_init cfg env boot_state)))"
  by (simp add: held_consistent_init held_consistent_dispatch held_consistent_deliver
      held_consistent_run)

theorem held_flag_invariant_witness:
  "held_consistent (in_state STATE_LED_COOLDOWN False [led_timeout_work])
   \<and> held_consistent (dispatch cfg_example Press (in_state STATE_LED_COOLDOWN False [led_timeout_work]))
   \<and> state (dispatch cfg_example Press (in_state STATE_LED_COOLDOWN False [led_timeout_work]))
       = STATE_HOLD_PENDING
   \<and> switch_pressed (dispatch cfg_example Press (in_state STATE_LED_COOLDOWN False [led_timeout_work]))
   \<and> held_consistent (deliver cfg_example Press (in_state STATE_LED_COOLDOWN False [led_timeout_work]))
   \<and> held_consistent
       (run cfg_example [Release, Press]
          (snd (travel_switch_init cfg_example (env_example True 1) boot_state)))"
  using held_flag_invariant
    [of cfg_example "env_example True 1" "in_state STATE_LED_COOLDOWN False [led_timeout_work]"
        Press "[Release, Press]"]
  by (simp add: held_consistent_def sample_defs on_press_def platform_defs)

subsection \<open>The blink sequence\<close>

lemma led_writes_append: "led_writes (xs @ ys) = led_writes xs @ led_writes ys"
  by (induction xs rule: led_writes.induct) simp_all

lemma length_blink_pattern: "length (blink_pattern n) = 2 * n"
  by (induction n) simp_all

lemma nth_blink_pattern: "j < 2 * n \<Longrightarrow> blink_pattern n ! j = even j"
proof (induction n arbitrary: j)
  case 0
  then show ?case by simp
next
  case (Suc n)
  show ?case
  proof (cases j)
    case 0
    then show ?thesis by simp
  next
    case j1: (Suc j')
    show ?thesis
    proof (cases j')
      case 0
      with j1 show ?thesis by simp
    next
      case (Suc i)
      with j1 Suc.prems have "i < 2 * n" by simp
      with Suc.IH [of i] j1 Suc show ?thesis by simp
    qed
  qed
qed

lemma take_Suc_blink_pattern:
  "j < 2 * n \<Longrightarrow> take (Suc j) (blink_pattern n) = take j (blink_pattern n) @ [even j]"
  by (simp add: take_Suc_conv_app_nth length_blink_pattern nth_blink_pattern)

lemma count_blink_pattern: "count_list (blink_pattern n) True = n"
  by (induction n) simp_all

lemma poweroff_calls_0: "(poweroff_calls s = 0) = (\<not> halted s)"
  by (simp add: poweroff_calls_def halted_def count_list_0_iff)

lemma deliver_halted: "halted s \<Longrightarrow> deliver cfg e s = s"
  by (simp add: deliver_def)

lemma run_halted: "halted s \<Longrightarrow> run cfg es s = s"
  by (induction es) (simp_all add: deliver_halted)

lemma blinking_entry:
  assumes "armed s"
  shows "blinking cfg 0 (deliver cfg (Run hold_timer_work) s)
       \<and> led_writes (trace (deliver cfg (Run hold_timer_work) s)) = led_writes (trace s) @ [False]
       \<and> switch_pressed (deliver cfg (Run hold_timer_work) s) = switch_pressed s"
  using assms
  by (auto simp add: armed_def blinking_def deliver_def halted_def hold_timer_handler_def
      start_blink_sequence_def platform_defs led_writes_append)

lemma blinking_step:
  assumes b: "blinking cfg j s" and j: "j < 2 * unat (blink_count cfg)"
  shows "blinking cfg (Suc j) (deliver cfg (Run blink_step_work) s)
       \<and> led_writes (trace (deliver cfg (Run blink_step_work) s)) = led_writes (trace s) @ [even j]
       \<and> switch_pressed (deliver cfg (Run blink_step_work) s) = switch_pressed s
       \<and> pending (deliver cfg (Run blink_step_work) s) soft_off_work = pending s soft_off_work"
proof -
  from b j have pos: "0 < unat (blink_remaining s)"
    by (simp add: blinking_def)
  then have nz: "blink_remaining s \<noteq> 0" by (simp add: unat_gt_0)
  show ?thesis
  proof (cases "odd j")
    case True
    with b have on: "blink_led_is_on s" by (simp add: blinking_def)
    have dec: "unat (blink_remaining s - 1) = unat (blink_remaining s) - 1"
      using nz by (rule unat_minus_one)
    from True have h: "Suc j div 2 = Suc (j div 2)" by presburger
    from b j nz on True dec h show ?thesis
      by (simp add: blinking_def deliver_def halted_def blink_step_handler_def platform_defs
          led_writes_append)
  next
    case False
    with b have off: "\<not> blink_led_is_on s" by (simp add: blinking_def)
    from False have h: "Suc j div 2 = j div 2" by presburger
    from b j nz off False h show ?thesis
      by (simp add: blinking_def deliver_def halted_def blink_step_handler_def platform_defs
          led_writes_append)
  qed
qed

lemma blinking_press:
  assumes b: "blinking cfg j s"
  shows "blinking cfg j (deliver cfg Press s)
       \<and> led_writes (trace (deliver cfg Press s)) = led_writes (trace s)
       \<and> switch_pressed (deliver cfg Press s)"
  using b by (simp add: blinking_def deliver_def halted_def on_press_def)

lemma blinking_release:
  assumes b: "blinking cfg j s"
  shows "blinking cfg j (deliver cfg Release s)
       \<and> led_writes (trace (deliver cfg Release s)) = led_writes (trace s)
       \<and> \<not> switch_pressed (deliver cfg Release s)
       \<and> (pending (deliver cfg Release s) soft_off_work
            = (pending s soft_off_work \<or> j = 2 * unat (blink_count cfg)))"
proof -
  from b have "(blink_remaining s = 0) = (j = 2 * unat (blink_count cfg))"
    by (simp add: blinking_def unat_0_iff [symmetric]) arith
  with b show ?thesis
    by (simp add: blinking_def deliver_def halted_def on_release_def platform_defs
        led_writes_append Let_def)
qed

lemma blinking_last_step:
  assumes b: "blinking cfg (2 * unat (blink_count cfg)) s"
  shows "blink_done (deliver cfg (Run blink_step_work) s)
       \<and> (state (deliver cfg (Run blink_step_work) s) = STATE_SHUTTING_DOWN) = (\<not> switch_pressed s)
       \<and> halted (deliver cfg (Run blink_step_work) s) = (\<not> switch_pressed s)
       \<and> led_writes (trace (deliver cfg (Run blink_step_work) s))
           = led_writes (trace s) @ (if switch_pressed s then [False] else [False, False])
       \<and> poweroff_calls (deliver cfg (Run blink_step_work) s) = (if switch_pressed s then 0 else 1)
       \<and> switch_pressed (deliver cfg (Run blink_step_work) s) = switch_pressed s
       \<and> pending (deliver cfg (Run blink_step_work) s) soft_off_work = pending s soft_off_work"
proof -
  from b have z: "blink_remaining s = 0"
    by (simp add: blinking_def unat_0_iff [symmetric])
  from b have nh: "SysPoweroff \<notin> set (trace s)" by (simp add: blinking_def halted_def)
  from b z nh show ?thesis
    by (simp add: blinking_def blink_done_def deliver_def halted_def blink_step_handler_def
        enter_soft_off_def platform_defs led_writes_append poweroff_calls_def Let_def)
qed

lemma soft_off_work_idle:
  assumes "\<not> pending s soft_off_work"
  shows "deliver cfg (Run soft_off_work) s = s"
  using assms by (simp add: deliver_def)

lemma soft_off_confined_init:
  "soft_off_confined (snd (travel_switch_init cfg env boot_state))"
  by (simp add: soft_off_confined_def travel_switch_init_def boot_state_def enter_soft_off_def
      platform_defs Let_def)

lemma soft_off_confined_deliver:
  assumes c: "soft_off_confined s"
  shows "soft_off_confined (deliver cfg e s)"
proof (cases "halted s")
  case True
  with c show ?thesis by (simp add: deliver_halted)
next
  case False
  show ?thesis
  proof (cases e)
    case Press
    with c False show ?thesis
      by (cases "state s")
        (auto simp add: soft_off_confined_def deliver_def on_press_def platform_defs)
  next
    case Release
    with c False show ?thesis
      by (cases "state s")
        (auto simp add: soft_off_confined_def deliver_def on_release_def enter_soft_off_def
          platform_defs Let_def)
  next
    case (Run w)
    with c False show ?thesis
      by (cases w; cases "state s")
        (auto simp add: soft_off_confined_def deliver_def module_defs platform_defs Let_def)
  qed
qed

lemma soft_off_confined_run: "soft_off_confined s \<Longrightarrow> soft_off_confined (run cfg es s)"
  by (induction es arbitrary: s) (simp_all add: soft_off_confined_deliver)

lemma armed_soft_off_idle:
  "armed s \<Longrightarrow> soft_off_confined s \<Longrightarrow> \<not> pending s soft_off_work"
  by (auto simp add: armed_def soft_off_confined_def)

lemma blinking_entry_soft_off:
  "armed s \<Longrightarrow>
   pending (deliver cfg (Run hold_timer_work) s) soft_off_work = pending s soft_off_work"
  by (auto simp add: armed_def deliver_def hold_timer_handler_def start_blink_sequence_def
      platform_defs)

lemma blinking_press_soft_off:
  "blinking cfg j s \<Longrightarrow> pending (deliver cfg Press s) soft_off_work = pending s soft_off_work"
  by (simp add: blinking_def deliver_def on_press_def)

lemma blinking_idle_timer:
  assumes b: "blinking cfg j s" and w: "w = hold_timer_work \<or> w = led_timeout_work"
  shows "blinking cfg j (deliver cfg (Run w) s)
       \<and> trace (deliver cfg (Run w) s) = trace s
       \<and> pending (deliver cfg (Run w) s) soft_off_work = pending s soft_off_work"
  using b w
  by (auto simp add: blinking_def deliver_def halted_def hold_timer_handler_def
      led_timeout_handler_def)

lemma blinking_soft_off:
  assumes b: "blinking cfg j s" and p: "pending s soft_off_work"
  shows "blink_done (deliver cfg (Run soft_off_work) s)
       \<and> state (deliver cfg (Run soft_off_work) s) = STATE_SHUTTING_DOWN
       \<and> led_writes (trace (deliver cfg (Run soft_off_work) s)) = led_writes (trace s) @ [False]"
  using b p
  by (simp add: blinking_def blink_done_def deliver_def halted_def soft_off_handler_def
      enter_soft_off_def platform_defs led_writes_append)

lemma blink_done_deliver:
  assumes d: "blink_done s"
  shows "blink_done (deliver cfg e s)
       \<and> ((state (deliver cfg e s) = state s
            \<and> led_writes (trace (deliver cfg e s)) = led_writes (trace s))
           \<or> (state s = STATE_BLINK_SEQUENCE
               \<and> state (deliver cfg e s) = STATE_SHUTTING_DOWN
               \<and> led_writes (trace (deliver cfg e s)) = led_writes (trace s) @ [False]))"
proof (cases "halted s")
  case True
  with d show ?thesis by (simp add: deliver_halted)
next
  case False
  with d have w: "state s = STATE_BLINK_SEQUENCE" "\<not> pending s blink_step_work"
    "blink_remaining s = 0" "SysPoweroff \<notin> set (trace s)"
    by (auto simp add: blink_done_def halted_def)
  show ?thesis
  proof (cases e)
    case Press
    with False w show ?thesis
      by (simp add: blink_done_def deliver_def halted_def on_press_def)
  next
    case Release
    with False w show ?thesis
      by (simp add: blink_done_def deliver_def halted_def on_release_def platform_defs
          led_writes_append Let_def)
  next
    case (Run x)
    with False w show ?thesis
      by (cases x)
        (simp_all add: blink_done_def deliver_def halted_def hold_timer_handler_def
          led_timeout_handler_def soft_off_handler_def enter_soft_off_def platform_defs
          led_writes_append)
  qed
qed

lemma blinking_not_done: "blinking cfg j s \<Longrightarrow> \<not> blink_done s"
  by (auto simp add: blinking_def blink_done_def)

lemma blink_track_deliver:
  assumes t: "blink_track cfg w0 c s"
  shows "blink_track cfg w0 (c + (if e = Run blink_step_work then 1 else 0)) (deliver cfg e s)"
proof (cases "blink_done s")
  case True
  with t have tr: "led_writes (trace s) = w0 @ False # blink_pattern (unat (blink_count cfg)) @ [False]
              \<or> (state s = STATE_SHUTTING_DOWN
                  \<and> led_writes (trace s)
                      = w0 @ False # blink_pattern (unat (blink_count cfg)) @ [False, False])"
    by (auto simp add: blink_track_def dest: blinking_not_done)
  from blink_done_deliver [OF True, of cfg e] tr show ?thesis
    by (auto simp add: blink_track_def)
next
  case False
  with t have b: "blinking cfg c s"
    and w: "led_writes (trace s) = w0 @ False # take c (blink_pattern (unat (blink_count cfg)))"
    and p: "pending s soft_off_work \<longrightarrow> c = 2 * unat (blink_count cfg)"
    by (simp_all add: blink_track_def)
  from b have le: "c \<le> 2 * unat (blink_count cfg)" by (simp add: blinking_def)
  show ?thesis
  proof (cases e)
    case Press
    with w p blinking_press [OF b] blinking_press_soft_off [OF b] show ?thesis
      by (simp add: blink_track_def)
  next
    case Release
    with w p blinking_release [OF b] show ?thesis
      by (simp add: blink_track_def)
  next
    case (Run x)
    show ?thesis
    proof (cases x)
      case hold_timer_work
      with Run w p blinking_idle_timer [OF b, of hold_timer_work] show ?thesis
        by (simp add: blink_track_def)
    next
      case led_timeout_work
      with Run w p blinking_idle_timer [OF b, of led_timeout_work] show ?thesis
        by (simp add: blink_track_def)
    next
      case blink_step_work
      show ?thesis
      proof (cases "c < 2 * unat (blink_count cfg)")
        case True
        with p have "\<not> pending s soft_off_work" by auto
        with Run blink_step_work w blinking_step [OF b True] show ?thesis
          by (simp add: blink_track_def take_Suc_blink_pattern True)
      next
        case nlt: False
        with le have c: "c = 2 * unat (blink_count cfg)" by simp
        from b c have b': "blinking cfg (2 * unat (blink_count cfg)) s" by simp
        from Run blink_step_work c w blinking_last_step [OF b'] show ?thesis
          by (simp add: blink_track_def length_blink_pattern)
      qed
    next
      case soft_off_work
      show ?thesis
      proof (cases "pending s soft_off_work")
        case True
        with p have c: "c = 2 * unat (blink_count cfg)" by simp
        from Run soft_off_work c w blinking_soft_off [OF b True] show ?thesis
          by (simp add: blink_track_def length_blink_pattern)
      next
        case np: False
        with Run soft_off_work t soft_off_work_idle [OF np, of cfg] show ?thesis by simp
      qed
    qed
  qed
qed

lemma blink_track_run:
  "blink_track cfg w0 c s \<Longrightarrow>
   blink_track cfg w0 (c + count_list es (Run blink_step_work)) (run cfg es s)"
proof (induction es arbitrary: c s)
  case Nil
  then show ?case by simp
next
  case (Cons e es)
  let ?d = "if e = Run blink_step_work then 1 else 0 :: nat"
  from Cons.prems have "blink_track cfg w0 (c + ?d) (deliver cfg e s)"
    by (rule blink_track_deliver)
  from Cons.IH [OF this] show ?case by (simp split: if_splits add: add.assoc)
qed

text \<open>
  C4. Take an armed machine whose soft-off work item is not pending (it never is in a
  reachable armed state, which is the last part of the statement), let the hold timer
  expire, and let any events whatever follow: presses, releases and any of the four work
  items, in any order. Whenever the blink sequence is over (the machine has powered off,
  or waits for the release), the writes to the indicator since the hold timer fired are:
  off, then exactly \<open>blink_count\<close> times on and off, then off once or, when powering
  off, possibly twice; the indicator was written on exactly \<open>blink_count\<close> times.
  While the sequence is not over, every expiry of the step timer so far has taken one
  step of the pattern, and more than \<open>2 * blink_count\<close> expiries end the sequence.
  Nothing here depends on the held flag: presses and releases arrive anywhere, and the
  soft-off work item that a release queues cannot cut the sequence short.
\<close>

theorem blink_sequence_cycles:
  assumes a: "armed s" and p: "\<not> pending s soft_off_work"
  shows "(blink_done (run cfg (Run hold_timer_work # es) s) \<longrightarrow>
            (led_writes (trace (run cfg (Run hold_timer_work # es) s))
               = led_writes (trace s) @ False # blink_pattern (unat (blink_count cfg)) @ [False]
             \<or> (state (run cfg (Run hold_timer_work # es) s) = STATE_SHUTTING_DOWN
                 \<and> led_writes (trace (run cfg (Run hold_timer_work # es) s))
                     = led_writes (trace s) @ False # blink_pattern (unat (blink_count cfg))
                         @ [False, False]))
            \<and> count_list (led_writes (trace (run cfg (Run hold_timer_work # es) s))) True
                = count_list (led_writes (trace s)) True + unat (blink_count cfg))
       \<and> (\<not> blink_done (run cfg (Run hold_timer_work # es) s) \<longrightarrow>
            blinking cfg (count_list es (Run blink_step_work)) (run cfg (Run hold_timer_work # es) s)
            \<and> led_writes (trace (run cfg (Run hold_timer_work # es) s))
                = led_writes (trace s)
                    @ False # take (count_list es (Run blink_step_work))
                                (blink_pattern (unat (blink_count cfg))))
       \<and> (2 * unat (blink_count cfg) < count_list es (Run blink_step_work) \<longrightarrow>
            blink_done (run cfg (Run hold_timer_work # es) s))
       \<and> (armed (run cfg es0 (snd (travel_switch_init cfg env boot_state))) \<longrightarrow>
            \<not> pending (run cfg es0 (snd (travel_switch_init cfg env boot_state))) soft_off_work)"
proof -
  let ?s1 = "deliver cfg (Run hold_timer_work) s"
  let ?s' = "run cfg es ?s1"
  let ?c = "count_list es (Run blink_step_work)"
  let ?n = "unat (blink_count cfg)"
  from blinking_entry [OF a, of cfg] blinking_entry_soft_off [OF a, of cfg] p
  have "blink_track cfg (led_writes (trace s)) 0 ?s1"
    by (simp add: blink_track_def)
  from blink_track_run [OF this, of es]
  have t: "blink_track cfg (led_writes (trace s)) ?c ?s'" by simp
  have fin: "blink_done ?s' \<longrightarrow>
            (led_writes (trace ?s') = led_writes (trace s) @ False # blink_pattern ?n @ [False]
             \<or> (state ?s' = STATE_SHUTTING_DOWN
                 \<and> led_writes (trace ?s')
                     = led_writes (trace s) @ False # blink_pattern ?n @ [False, False]))
            \<and> count_list (led_writes (trace ?s')) True
                = count_list (led_writes (trace s)) True + ?n"
    using t by (auto simp add: blink_track_def count_blink_pattern dest: blinking_not_done)
  have running: "\<not> blink_done ?s' \<longrightarrow>
            blinking cfg ?c ?s'
            \<and> led_writes (trace ?s') = led_writes (trace s) @ False # take ?c (blink_pattern ?n)"
    using t by (auto simp add: blink_track_def)
  have enough: "2 * ?n < ?c \<longrightarrow> blink_done ?s'"
    using running by (auto simp add: blinking_def)
  have reach: "armed (run cfg es0 (snd (travel_switch_init cfg env boot_state))) \<longrightarrow>
            \<not> pending (run cfg es0 (snd (travel_switch_init cfg env boot_state))) soft_off_work"
    using soft_off_confined_run [OF soft_off_confined_init, of cfg es0 cfg env]
    by (auto dest: armed_soft_off_idle)
  from fin running enough reach show ?thesis by simp
qed

theorem blink_sequence_cycles_witness:
  "armed (in_state STATE_HOLD_PENDING True [hold_timer_work])
   \<and> \<not> pending (in_state STATE_HOLD_PENDING True [hold_timer_work]) soft_off_work
   \<and> blink_done (run cfg_example
        (Run hold_timer_work #
          [Run blink_step_work, Run blink_step_work, Press, Run blink_step_work,
           Run blink_step_work, Release, Run soft_off_work])
        (in_state STATE_HOLD_PENDING True [hold_timer_work]))
   \<and> led_writes (trace (run cfg_example
        (Run hold_timer_work #
          [Run blink_step_work, Run blink_step_work, Press, Run blink_step_work,
           Run blink_step_work, Release, Run soft_off_work])
        (in_state STATE_HOLD_PENDING True [hold_timer_work])))
       = [False, True, False, True, False, False]
   \<and> count_list (led_writes (trace (run cfg_example
        (Run hold_timer_work #
          [Run blink_step_work, Run blink_step_work, Press, Run blink_step_work,
           Run blink_step_work, Release, Run soft_off_work])
        (in_state STATE_HOLD_PENDING True [hold_timer_work])))) True
       = 2
   \<and> \<not> blink_done (run cfg_example
        (Run hold_timer_work # [Run blink_step_work, Release, Run blink_step_work,
                                Run soft_off_work, Run blink_step_work])
        (in_state STATE_HOLD_PENDING True [hold_timer_work]))
   \<and> led_writes (trace (run cfg_example
        (Run hold_timer_work # [Run blink_step_work, Release, Run blink_step_work,
                                Run soft_off_work, Run blink_step_work])
        (in_state STATE_HOLD_PENDING True [hold_timer_work])))
       = [False, True, False, True]
   \<and> armed (run cfg_example [] (snd (travel_switch_init cfg_example (env_example True 1) boot_state)))
   \<and> \<not> pending (run cfg_example []
          (snd (travel_switch_init cfg_example (env_example True 1) boot_state))) soft_off_work"
proof -
  have a: "armed (in_state STATE_HOLD_PENDING True [hold_timer_work])"
    by (simp add: armed_def halted_def sample_defs)
  have p: "\<not> pending (in_state STATE_HOLD_PENDING True [hold_timer_work]) soft_off_work"
    by (simp add: sample_defs)
  have d: "blink_done (run cfg_example
        (Run hold_timer_work #
          [Run blink_step_work, Run blink_step_work, Press, Run blink_step_work,
           Run blink_step_work, Release, Run soft_off_work])
        (in_state STATE_HOLD_PENDING True [hold_timer_work]))"
    by (simp add: blink_done_def sample_defs deliver_def halted_def module_defs platform_defs)
  have nd: "\<not> blink_done (run cfg_example
        (Run hold_timer_work # [Run blink_step_work, Release, Run blink_step_work,
                                Run soft_off_work, Run blink_step_work])
        (in_state STATE_HOLD_PENDING True [hold_timer_work]))"
    by (simp add: blink_done_def sample_defs deliver_def halted_def module_defs platform_defs)
  have w: "led_writes (trace (run cfg_example
        (Run hold_timer_work #
          [Run blink_step_work, Run blink_step_work, Press, Run blink_step_work,
           Run blink_step_work, Release, Run soft_off_work])
        (in_state STATE_HOLD_PENDING True [hold_timer_work])))
       = [False, True, False, True, False, False]"
    by (simp add: sample_defs deliver_def halted_def module_defs platform_defs)
  have nw: "led_writes (trace (run cfg_example
        (Run hold_timer_work # [Run blink_step_work, Release, Run blink_step_work,
                                Run soft_off_work, Run blink_step_work])
        (in_state STATE_HOLD_PENDING True [hold_timer_work])))
       = [False, True, False, True]"
    by (simp add: sample_defs deliver_def halted_def module_defs platform_defs)
  have b: "armed (run cfg_example []
      (snd (travel_switch_init cfg_example (env_example True 1) boot_state)))"
    by (simp add: armed_def halted_def travel_switch_init_def sample_defs platform_defs Let_def)
  from a p d nd w nw b
    blink_sequence_cycles [OF a p, of cfg_example
      "[Run blink_step_work, Run blink_step_work, Press, Run blink_step_work,
        Run blink_step_work, Release, Run soft_off_work]" "[]" "env_example True 1"]
    blink_sequence_cycles [OF a p, of cfg_example
      "[Run blink_step_work, Release, Run blink_step_work,
        Run soft_off_work, Run blink_step_work]" "[]" "env_example True 1"]
  show ?thesis by simp
qed

subsection \<open>Entering soft-off exactly once\<close>

lemma blinking_steps:
  "blinking cfg j s \<Longrightarrow> j + m \<le> 2 * unat (blink_count cfg) \<Longrightarrow>
   blinking cfg (j + m) (run cfg (replicate m (Run blink_step_work)) s)
   \<and> switch_pressed (run cfg (replicate m (Run blink_step_work)) s) = switch_pressed s
   \<and> pending (run cfg (replicate m (Run blink_step_work)) s) soft_off_work
       = pending s soft_off_work"
proof (induction m arbitrary: j s)
  case 0
  then show ?case by simp
next
  case (Suc m)
  from Suc.prems have lt: "j < 2 * unat (blink_count cfg)" by simp
  note st = blinking_step [OF Suc.prems(1) lt]
  from st have b: "blinking cfg (Suc j) (deliver cfg (Run blink_step_work) s)" by simp
  from Suc.prems have le: "Suc j + m \<le> 2 * unat (blink_count cfg)" by simp
  from Suc.IH [OF b le] st show ?case by simp
qed

lemma blinking_not_powered_off: "blinking cfg j s \<Longrightarrow> poweroff_calls s = 0"
  by (simp add: blinking_def poweroff_calls_0)

lemma soft_off_work_runs:
  assumes "\<not> halted s" and "pending s soft_off_work"
  shows "poweroff_calls (deliver cfg (Run soft_off_work) s) = 1
       \<and> halted (deliver cfg (Run soft_off_work) s)
       \<and> state (deliver cfg (Run soft_off_work) s) = STATE_SHUTTING_DOWN"
  using assms
  by (simp add: deliver_def halted_def poweroff_calls_def soft_off_handler_def enter_soft_off_def
      platform_defs)

lemma waiting_release:
  assumes "blink_done s" and "state s \<noteq> STATE_SHUTTING_DOWN"
  shows "pending (deliver cfg Release s) soft_off_work \<and> \<not> halted (deliver cfg Release s)"
  using assms
  by (simp add: blink_done_def deliver_def halted_def on_release_def platform_defs Let_def)

lemma dispatch_poweroff_le:
  "poweroff_calls (dispatch cfg e s) \<le> poweroff_calls s + 1"
proof (cases e)
  case Press
  then show ?thesis
    by (cases "state s") (simp_all add: poweroff_calls_def on_press_def platform_defs)
next
  case Release
  then show ?thesis
    by (cases "state s")
      (simp_all add: poweroff_calls_def on_release_def enter_soft_off_def platform_defs Let_def)
next
  case (Run w)
  then show ?thesis
    by (cases w)
      (simp_all add: poweroff_calls_def hold_timer_handler_def start_blink_sequence_def
        led_timeout_handler_def blink_step_handler_def soft_off_handler_def enter_soft_off_def
        platform_defs Let_def)
qed

lemma poweroff_calls_pending_upd: "poweroff_calls (s\<lparr>pending := p\<rparr>) = poweroff_calls s"
  by (simp add: poweroff_calls_def)

lemma deliver_poweroff_le:
  assumes "poweroff_calls s \<le> 1"
  shows "poweroff_calls (deliver cfg e s) \<le> 1"
proof (cases "halted s")
  case True
  with assms show ?thesis by (simp add: deliver_halted)
next
  case False
  then have z: "poweroff_calls s = 0" by (simp add: poweroff_calls_0)
  show ?thesis
  proof (cases e)
    case Press
    with False z dispatch_poweroff_le [of cfg Press s] show ?thesis by (simp add: deliver_def)
  next
    case Release
    with False z dispatch_poweroff_le [of cfg Release s] show ?thesis by (simp add: deliver_def)
  next
    case (Run w)
    with False z
      dispatch_poweroff_le [of cfg "Run w" "s\<lparr>pending := (pending s)(w := False)\<rparr>"]
    show ?thesis by (simp add: deliver_def poweroff_calls_pending_upd)
  qed
qed

lemma run_poweroff_le: "poweroff_calls s \<le> 1 \<Longrightarrow> poweroff_calls (run cfg es s) \<le> 1"
proof (induction es arbitrary: s)
  case Nil
  then show ?case by simp
next
  case (Cons e es)
  from Cons.prems have "poweroff_calls (deliver cfg e s) \<le> 1" by (rule deliver_poweroff_le)
  then have "poweroff_calls (run cfg es (deliver cfg e s)) \<le> 1" by (rule Cons.IH)
  then show ?case by simp
qed

lemma replicate_snoc: "replicate (Suc m) x = replicate m x @ [x]"
  by (simp add: replicate_append_same)

lemma release_then_finish:
  assumes b: "blinking cfg k s" and k: "k \<le> 2 * unat (blink_count cfg)"
    and r: "\<not> switch_pressed s"
  shows "poweroff_calls
           (run cfg (replicate (2 * unat (blink_count cfg) + 1 - k) (Run blink_step_work)) s) = 1
       \<and> halted (run cfg (replicate (2 * unat (blink_count cfg) + 1 - k) (Run blink_step_work)) s)"
proof -
  let ?n = "unat (blink_count cfg)"
  let ?B = "Run blink_step_work"
  let ?s4 = "run cfg (replicate (2 * ?n - k) ?B) s"
  from k have len: "2 * ?n + 1 - k = Suc (2 * ?n - k)" by simp
  from k have "k + (2 * ?n - k) \<le> 2 * ?n" by simp
  from blinking_steps [OF b this] k r
  have b4: "blinking cfg (2 * ?n) ?s4" and r4: "\<not> switch_pressed ?s4" by simp_all
  from blinking_last_step [OF b4] r4
  have "poweroff_calls (deliver cfg ?B ?s4) = 1 \<and> halted (deliver cfg ?B ?s4)"
    by simp
  then show ?thesis
    by (simp only: len replicate_snoc run_append run.simps)
qed

text \<open>
  C2. \<^verbatim>\<open>sys_poweroff\<close> does not return, and \<open>deliver\<close> runs nothing after it. From an
  armed machine no event sequence calls it more than once. It is called exactly once in
  both orders of release and completion: when the release arrives after any number
  \<open>k\<close> of blink steps and the blink sequence then runs to its end (with the soft-off
  work item given its turn last, or right after the release), and when the blink sequence
  runs to its end with the switch held and the release and the soft-off work item follow.
\<close>

theorem soft_off_exactly_once:
  assumes a: "armed s"
  shows "poweroff_calls (run cfg es s) \<le> 1
       \<and> (k \<le> 2 * unat (blink_count cfg) \<longrightarrow>
            poweroff_calls (run cfg (release_before_completion cfg k) s) = 1
            \<and> poweroff_calls (run cfg (release_before_completion_soft_off_first cfg k) s) = 1)
       \<and> (switch_pressed s \<longrightarrow>
            poweroff_calls (run cfg (release_after_completion cfg) s) = 1)"
proof (intro conjI impI)
  from a have "poweroff_calls s = 0" by (simp add: armed_def poweroff_calls_0)
  then have "poweroff_calls s \<le> 1" by simp
  then show "poweroff_calls (run cfg es s) \<le> 1" by (rule run_poweroff_le)
next
  let ?n = "unat (blink_count cfg)"
  let ?B = "Run blink_step_work"
  let ?s1 = "deliver cfg (Run hold_timer_work) s"
  let ?s2 = "run cfg (replicate k ?B) ?s1"
  let ?s3 = "deliver cfg Release ?s2"
  let ?rest = "replicate (2 * ?n + 1 - k) ?B"
  assume k: "k \<le> 2 * ?n"
  from blinking_entry [OF a, of cfg] have b1: "blinking cfg 0 ?s1" by simp
  from k have "0 + k \<le> 2 * ?n" by simp
  from blinking_steps [OF b1 this] have b2: "blinking cfg k ?s2" by simp
  from blinking_release [OF b2] have b3: "blinking cfg k ?s3" and r3: "\<not> switch_pressed ?s3"
    by simp_all
  note fin = release_then_finish [OF b3 k r3]
  from fin have "poweroff_calls (run cfg [Run soft_off_work] (run cfg ?rest ?s3)) = 1"
    by (simp add: deliver_halted)
  then show "poweroff_calls (run cfg (release_before_completion cfg k) s) = 1"
    by (simp add: release_before_completion_def run_append)
  show "poweroff_calls (run cfg (release_before_completion_soft_off_first cfg k) s) = 1"
  proof (cases "pending ?s3 soft_off_work")
    case True
    from b3 have "\<not> halted ?s3" by (simp add: blinking_def)
    from soft_off_work_runs [OF this True, of cfg]
    have "poweroff_calls (run cfg ?rest (deliver cfg (Run soft_off_work) ?s3)) = 1"
      by (simp add: run_halted)
    then show ?thesis
      by (simp add: release_before_completion_soft_off_first_def run_append)
  next
    case False
    from soft_off_work_idle [OF False, of cfg] fin
    have "poweroff_calls (run cfg ?rest (deliver cfg (Run soft_off_work) ?s3)) = 1"
      by simp
    then show ?thesis
      by (simp add: release_before_completion_soft_off_first_def run_append)
  qed
next
  let ?n = "unat (blink_count cfg)"
  let ?B = "Run blink_step_work"
  let ?s1 = "deliver cfg (Run hold_timer_work) s"
  let ?s2 = "run cfg (replicate (2 * ?n) ?B) ?s1"
  let ?s3 = "deliver cfg ?B ?s2"
  let ?s4 = "deliver cfg Release ?s3"
  assume held: "switch_pressed s"
  from blinking_entry [OF a, of cfg] held
  have b1: "blinking cfg 0 ?s1" and h1: "switch_pressed ?s1" by simp_all
  have "0 + 2 * ?n \<le> 2 * ?n" by simp
  from blinking_steps [OF b1 this] h1
  have b2: "blinking cfg (2 * ?n) ?s2" and h2: "switch_pressed ?s2" by simp_all
  from blinking_last_step [OF b2] h2
  have d3: "blink_done ?s3" and w3: "state ?s3 \<noteq> STATE_SHUTTING_DOWN" by simp_all
  from waiting_release [OF d3 w3, of cfg]
  have p4: "pending ?s4 soft_off_work" and n4: "\<not> halted ?s4" by simp_all
  from soft_off_work_runs [OF n4 p4, of cfg]
  have "poweroff_calls (deliver cfg (Run soft_off_work) ?s4) = 1" by simp
  then show "poweroff_calls (run cfg (release_after_completion cfg) s) = 1"
    by (simp add: release_after_completion_def run_append replicate_snoc
        del: replicate_Suc replicate.simps)
qed

theorem soft_off_exactly_once_witness:
  "armed (in_state STATE_HOLD_PENDING True [hold_timer_work])
   \<and> 4 \<le> 2 * unat (blink_count cfg_example)
   \<and> switch_pressed (in_state STATE_HOLD_PENDING True [hold_timer_work])
   \<and> poweroff_calls (run cfg_example [Release, Press, Run hold_timer_work, Release]
        (in_state STATE_HOLD_PENDING True [hold_timer_work])) \<le> 1
   \<and> poweroff_calls (run cfg_example (release_before_completion cfg_example 4)
        (in_state STATE_HOLD_PENDING True [hold_timer_work])) = 1
   \<and> poweroff_calls (run cfg_example (release_before_completion_soft_off_first cfg_example 4)
        (in_state STATE_HOLD_PENDING True [hold_timer_work])) = 1
   \<and> poweroff_calls (run cfg_example (release_after_completion cfg_example)
        (in_state STATE_HOLD_PENDING True [hold_timer_work])) = 1"
proof -
  have a: "armed (in_state STATE_HOLD_PENDING True [hold_timer_work])"
    by (simp add: armed_def halted_def sample_defs)
  have k: "4 \<le> 2 * unat (blink_count cfg_example)"
    by (simp add: cfg_example_def)
  have h: "switch_pressed (in_state STATE_HOLD_PENDING True [hold_timer_work])"
    by (simp add: sample_defs)
  from a k h
    soft_off_exactly_once [OF a, of cfg_example "[Release, Press, Run hold_timer_work, Release]" 4]
  show ?thesis by simp
qed

text \<open>
  The bound of one call rests on \<^verbatim>\<open>sys_poweroff\<close> not returning. Between the step
  that takes the count to zero and the step that completes the sequence, a release
  submits the soft-off work item while the step timer is still pending. If the handlers
  are called one after the other regardless (as with a stub for \<^verbatim>\<open>sys_poweroff\<close>
  that returns), the completing step and the soft-off work item each enter soft-off.
\<close>

lemma returning_stub_enters_soft_off_twice:
  "poweroff_calls
     (foldl (\<lambda>s e. dispatch cfg_example e s)
        (in_state STATE_HOLD_PENDING True [hold_timer_work])
        [Run hold_timer_work, Run blink_step_work, Run blink_step_work, Run blink_step_work,
         Run blink_step_work, Release, Run blink_step_work, Run soft_off_work]) = 2"
  by (simp add: poweroff_calls_def sample_defs module_defs platform_defs)

end
